theory Spec2Isabelle
  imports Main "HOL-Library.Sublist" "HOL-Library.AList"
begin

section \<open>Go string primitives used by the proxy\<close>

text \<open>
  Go strings are byte sequences; they are modelled as \<^typ>\<open>string\<close> (a list of
  8-bit characters).  The functions below follow the definitions of the Go standard
  library: \<^verbatim>\<open>strings.HasPrefix\<close>, \<^verbatim>\<open>strings.HasSuffix\<close>,
  \<^verbatim>\<open>strings.Contains\<close> and \<^verbatim>\<open>strings.ToLower\<close>.  \<^verbatim>\<open>ToLower\<close> is modelled
  on ASCII text, as header values are: the letters \<^verbatim>\<open>A-Z\<close> are lowered and every
  other byte is left as it is.
\<close>

definition HasPrefix :: "string \<Rightarrow> string \<Rightarrow> bool" where
  "HasPrefix s pre = (length s \<ge> length pre \<and> take (length pre) s = pre)"

definition HasSuffix :: "string \<Rightarrow> string \<Rightarrow> bool" where
  "HasSuffix s suf = (length s \<ge> length suf \<and> drop (length s - length suf) s = suf)"

fun Contains :: "string \<Rightarrow> string \<Rightarrow> bool" where
  "Contains [] sub = (sub = [])"
| "Contains (c # cs) sub = (HasPrefix (c # cs) sub \<or> Contains cs sub)"

definition lowerChar :: "char \<Rightarrow> char" where
  "lowerChar c = (let n = (of_char c :: nat) in
     if 65 \<le> n \<and> n \<le> 90 then char_of (n + 32) else c)"

definition ToLower :: "string \<Rightarrow> string" where
  "ToLower s = map lowerChar s"

section \<open>Data model (package models)\<close>

text \<open>
  \<^verbatim>\<open>http.Header\<close> is a Go map from canonical header names to value lists.  It is
  modelled as an association list with pairwise distinct keys; the order of the list
  carries no meaning.
\<close>

type_synonym Header = "(string \<times> string list) list"

record RequestDetails =
  ID :: int
  Host :: string
  Method :: string
  Path :: string
  Query :: string
  Headers :: Header
  Timestamp :: int
  ResponseLength :: nat
  Status :: int
  ResponseTime :: int
  Protocol :: string
  Body :: string
  ResponseBody :: string
  ResponseHeaders :: Header
  Error :: string

record ProxyConfig =
  Port :: int
  SSLInterception :: bool
  CustomHeaders :: "(string \<times> string) list"
  SaveOnlyInScope :: bool
  InScope :: "string list"
  OutOfScope :: "string list"
  CertPath :: string

text \<open>The port of a \<^verbatim>\<open>ProxyStatus\<close> is the field \<open>StatusPort\<close>.\<close>

record ProxyStatus =
  IsRunning :: bool
  StatusPort :: int
  CertificatePath :: string

section \<open>Scope filter\<close>

text \<open>
  \<^verbatim>\<open>matchesPattern(host, pattern)\<close>: an exact match, or for a pattern starting with
  \<^verbatim>\<open>*.\<close> the test \<^verbatim>\<open>strings.HasSuffix(host, domain) || host == domain\<close> where
  \<^verbatim>\<open>domain = pattern[2:]\<close>.
\<close>

definition matchesPattern :: "string \<Rightarrow> string \<Rightarrow> bool" where
  "matchesPattern host pattern =
     (if pattern = host then True
      else if HasPrefix pattern ''*.'' then
        (let domain = drop 2 pattern in HasSuffix host domain \<or> host = domain)
      else False)"

text \<open>The two \<^verbatim>\<open>for ... range\<close> loops of \<^verbatim>\<open>shouldSave\<close>, each returning at the first match.\<close>

fun anyMatch :: "string \<Rightarrow> string list \<Rightarrow> bool" where
  "anyMatch host [] = False"
| "anyMatch host (pattern # ps) = (if matchesPattern host pattern then True else anyMatch host ps)"

definition shouldSave :: "ProxyConfig \<Rightarrow> string \<Rightarrow> bool" where
  "shouldSave cfg host =
     (if \<not> SaveOnlyInScope cfg then True
      else if anyMatch host (OutOfScope cfg) then False
      else if anyMatch host (InScope cfg) then True
      else False)"

section \<open>HTTP headers (net/http and net/textproto)\<close>

text \<open>
  \<^verbatim>\<open>textproto.CanonicalMIMEHeaderKey\<close>: a key made of token characters only gets an
  upper-case first letter and an upper-case letter after every dash, all other letters
  lower-case; a key with any other byte is returned unchanged.  The token characters
  are the digits, the letters and \<^verbatim>\<open>! # $ % & ' * + - . ^ _ ` | ~\<close>.
\<close>

definition validHeaderFieldByte :: "char \<Rightarrow> bool" where
  "validHeaderFieldByte c = (let n = (of_char c :: nat) in
     (48 \<le> n \<and> n \<le> 57) \<or> (65 \<le> n \<and> n \<le> 90) \<or> (97 \<le> n \<and> n \<le> 122)
     \<or> n \<in> set [33, 35, 36, 37, 38, 39, 42, 43, 45, 46, 94, 95, 96, 124, 126])"

fun canonLoop :: "bool \<Rightarrow> string \<Rightarrow> string" where
  "canonLoop upper [] = []"
| "canonLoop upper (c # cs) =
     (let n = (of_char c :: nat);
          c' = (if upper \<and> 97 \<le> n \<and> n \<le> 122 then char_of (n - 32)
                else if \<not> upper \<and> 65 \<le> n \<and> n \<le> 90 then char_of (n + 32)
                else c)
      in c' # canonLoop (c' = CHR ''-'') cs)"

definition CanonicalMIMEHeaderKey :: "string \<Rightarrow> string" where
  "CanonicalMIMEHeaderKey s = (if list_all validHeaderFieldByte s then canonLoop True s else s)"


definition HeaderGet :: "Header \<Rightarrow> string \<Rightarrow> string" where
  "HeaderGet h key = (case map_of h (CanonicalMIMEHeaderKey key) of
       None \<Rightarrow> [] | Some [] \<Rightarrow> [] | Some (v # vs) \<Rightarrow> v)"


section \<open>Requests, responses and body readers\<close>

text \<open>
  A body is an \<^verbatim>\<open>io.ReadCloser\<close>: either a stream that delivers its bytes, or one
  whose read fails.  \<^verbatim>\<open>io.ReadAll(io.LimitReader(r, n))\<close> returns at most the first
  \<open>n\<close> bytes.
\<close>

datatype Reader = Bytes string | Broken

fun ReadAllLimit :: "Reader \<Rightarrow> nat \<Rightarrow> (string \<times> bool)" where
  "ReadAllLimit (Bytes s) n = (take n s, False)"
| "ReadAllLimit Broken n = ([], True)"

record Request =
  ReqHost :: string
  ReqMethod :: string
  URLPath :: string
  RawQuery :: string
  ReqHeader :: Header
  TLS :: bool
  ReqBody :: "Reader option"

record Response =
  StatusCode :: int
  RespHeader :: Header
  RespBody :: "Reader option"

record UserData =
  startTime :: int
  reqID :: int

definition MaxBodySize :: nat where
  "MaxBodySize = 10 * 1024 * 1024"

definition MaxCachedRequests :: nat where
  "MaxCachedRequests = 1000"

definition BatchSize :: nat where
  "BatchSize = 50"

definition BatchInterval :: nat where
  "BatchInterval = 100"

section \<open>Capture pipeline\<close>


text \<open>
  The decoders of \<^verbatim>\<open>compress/gzip\<close> and of the brotli package are not part of the
  repository; they are parameters.  For gzip, \<open>None\<close> is a failure of
  \<^verbatim>\<open>gzip.NewReader\<close>; otherwise the decoder gives what \<^verbatim>\<open>io.ReadAll\<close> returns: the
  bytes read and whether it ended in an error.
\<close>

record Decoders =
  gzipDecode :: "string \<Rightarrow> (string \<times> bool) option"
  brotliDecode :: "string \<Rightarrow> string \<times> bool"

definition decompressResponse :: "Decoders \<Rightarrow> string \<Rightarrow> string \<Rightarrow> string \<times> bool" where
  "decompressResponse dec dat encoding =
     (if encoding = [] then (dat, False)
      else (let enc = ToLower encoding in
        if Contains enc ''gzip'' then
          (case gzipDecode dec dat of None \<Rightarrow> (dat, True) | Some r \<Rightarrow> r)
        else if Contains enc ''br'' then brotliDecode dec dat
        else if Contains enc ''deflate'' then (dat, False)
        else (dat, False)))"

definition textTypes :: "string list" where
  "textTypes = [''text/'', ''application/json'', ''application/xml'',
     ''application/javascript'', ''application/x-www-form-urlencoded'',
     ''application/graphql'']"

fun containsAny :: "string \<Rightarrow> string list \<Rightarrow> bool" where
  "containsAny ct [] = False"
| "containsAny ct (t # ts) = (if Contains ct t then True else containsAny ct ts)"

definition shouldCaptureBody :: "string \<Rightarrow> bool" where
  "shouldCaptureBody contentType =
     (if contentType = [] then True else containsAny (ToLower contentType) textTypes)"

definition captureResponse ::
  "Decoders \<Rightarrow> Request \<Rightarrow> Response \<Rightarrow> int \<Rightarrow> int \<Rightarrow> int \<Rightarrow> RequestDetails \<times> Response" where
  "captureResponse dec req resp rid start now =
     (let responseTime = now - start;
          protocol = (if TLS req then ''https'' else ''http'');
          (responseBody, contentLength, resp') =
            (case RespBody resp of
               None \<Rightarrow> ([], 0, resp)
             | Some rd \<Rightarrow>
                 if shouldCaptureBody (HeaderGet (RespHeader resp) ''Content-Type'') then
                   (let (bodyBytes, err) = ReadAllLimit rd MaxBodySize in
                    if \<not> err then
                      (let (decompressed, derr) =
                             decompressResponse dec bodyBytes
                               (HeaderGet (RespHeader resp) ''Content-Encoding'')
                       in ((if \<not> derr then decompressed else []), length bodyBytes,
                           resp\<lparr>RespBody := Some (Bytes bodyBytes)\<rparr>))
                    else ([], 0, resp\<lparr>RespBody := Some Broken\<rparr>))
                 else ([], 0, resp))
      in (\<lparr>ID = rid, Host = ReqHost req, Method = ReqMethod req, Path = URLPath req,
           Query = RawQuery req, Headers = ReqHeader req, Timestamp = start,
           ResponseLength = contentLength, Status = StatusCode resp,
           ResponseTime = responseTime, Protocol = protocol,
           Body = [], ResponseBody = responseBody, ResponseHeaders = RespHeader resp,
           Error = []\<rparr>, resp'))"

section \<open>Header sanitization and custom headers\<close>





section \<open>Observers (package ipc) and the proxy server state\<close>

record IPCEvent =
  Type :: string
  Data :: "RequestDetails list"

text \<open>
  Every event client is a buffered channel of capacity 100; the state of a channel is
  the list of events waiting in it.
\<close>

record Server =
  eventClients :: "IPCEvent list list"

datatype Timer = AfterFunc nat

text \<open>
  The proxy server.  The three callbacks act on the observers' side, here the state of
  the IPC server.  A nil callback, timer or listener is \<open>None\<close>.  The listener is
  identified by the port it is bound to.
\<close>

record ProxyServer =
  config :: ProxyConfig
  listener :: "int option"
  requestID :: int
  reqCache :: "RequestDetails list"
  cacheHead :: nat
  cacheTail :: nat
  cacheCount :: nat
  reqBatch :: "RequestDetails list"
  respBatch :: "RequestDetails list"
  batchTimer :: "Timer option"
  onRequest :: "(RequestDetails \<Rightarrow> Server \<Rightarrow> Server) option"
  onResponse :: "(RequestDetails \<Rightarrow> Server \<Rightarrow> Server) option"
  onBatchFlush :: "(RequestDetails list \<Rightarrow> RequestDetails list \<Rightarrow> Server \<Rightarrow> Server) option"
  isRunning :: bool

definition zeroDetails :: RequestDetails where
  "zeroDetails = \<lparr>ID = 0, Host = [], Method = [], Path = [], Query = [], Headers = [],
     Timestamp = 0, ResponseLength = 0, Status = 0, ResponseTime = 0, Protocol = [],
     Body = [], ResponseBody = [], ResponseHeaders = [], Error = []\<rparr>"

definition defaultConfig :: ProxyConfig where
  "defaultConfig = \<lparr>Port = 8080, SSLInterception = True, CustomHeaders = [],
     SaveOnlyInScope = False, InScope = [], OutOfScope = [], CertPath = []\<rparr>"

text \<open>
  \<^verbatim>\<open>NewProxyServer\<close>, after the certificate manager has been created: the second
  argument is the path of the CA certificate the manager reports.
\<close>

definition NewProxyServer :: "ProxyConfig option \<Rightarrow> string \<Rightarrow> ProxyServer" where
  "NewProxyServer cfg caPath =
     \<lparr>config = (case cfg of None \<Rightarrow> defaultConfig | Some c \<Rightarrow> c)\<lparr>CertPath := caPath\<rparr>,
      listener = None, requestID = 0,
      reqCache = replicate MaxCachedRequests zeroDetails,
      cacheHead = 0, cacheTail = 0, cacheCount = 0,
      reqBatch = [], respBatch = [], batchTimer = None,
      onRequest = None, onResponse = None, onBatchFlush = None,
      isRunning = False\<rparr>"

section \<open>Capture store: the circular buffer\<close>

text \<open>
  An index outside the slice makes Go panic; a panic is the result \<open>None\<close>.
\<close>

definition addToCache :: "RequestDetails \<Rightarrow> ProxyServer \<Rightarrow> ProxyServer option" where
  "addToCache req ps =
     (if cacheTail ps < length (reqCache ps) then
        (let ps1 = ps\<lparr>reqCache := (reqCache ps)[cacheTail ps := req],
                       cacheTail := (cacheTail ps + 1) mod MaxCachedRequests\<rparr>
         in if cacheCount ps1 < MaxCachedRequests
            then Some (ps1\<lparr>cacheCount := cacheCount ps1 + 1\<rparr>)
            else Some (ps1\<lparr>cacheHead := (cacheHead ps1 + 1) mod MaxCachedRequests\<rparr>))
      else None)"

text \<open>The loop of \<^verbatim>\<open>updateInCache\<close> over \<open>i = 0, ..., cacheCount - 1\<close>, with its break.\<close>

fun updateLoop :: "RequestDetails \<Rightarrow> ProxyServer \<Rightarrow> nat list \<Rightarrow> ProxyServer option" where
  "updateLoop resp ps [] = Some ps"
| "updateLoop resp ps (i # is) =
     (let idx = (cacheHead ps + i) mod MaxCachedRequests in
      if idx < length (reqCache ps) then
        (if ID (reqCache ps ! idx) = ID resp
         then Some (ps\<lparr>reqCache := (reqCache ps)[idx := resp]\<rparr>)
         else updateLoop resp ps is)
      else None)"

definition updateInCache :: "RequestDetails \<Rightarrow> ProxyServer \<Rightarrow> ProxyServer option" where
  "updateInCache resp ps = updateLoop resp ps [0..<cacheCount ps]"

text \<open>The loop of \<^verbatim>\<open>GetRequests\<close> over \<open>i = cacheCount - 1, ..., 0\<close>.\<close>

fun readLoop :: "ProxyServer \<Rightarrow> nat list \<Rightarrow> RequestDetails list option" where
  "readLoop ps [] = Some []"
| "readLoop ps (i # is) =
     (let idx = (cacheHead ps + i) mod MaxCachedRequests in
      if idx < length (reqCache ps) then
        (case readLoop ps is of None \<Rightarrow> None | Some rest \<Rightarrow> Some (reqCache ps ! idx # rest))
      else None)"

definition GetRequests :: "ProxyServer \<Rightarrow> RequestDetails list option" where
  "GetRequests ps = readLoop ps (rev [0..<cacheCount ps])"

definition ClearRequests :: "ProxyServer \<Rightarrow> ProxyServer" where
  "ClearRequests ps = ps\<lparr>cacheHead := 0, cacheTail := 0, cacheCount := 0\<rparr>"

text \<open>Appending a sequence of records, one \<^verbatim>\<open>addToCache\<close> after the other.\<close>

fun addAllToCache :: "RequestDetails list \<Rightarrow> ProxyServer \<Rightarrow> ProxyServer option" where
  "addAllToCache [] ps = Some ps"
| "addAllToCache (r # rs) ps =
     (case addToCache r ps of None \<Rightarrow> None | Some ps' \<Rightarrow> addAllToCache rs ps')"

section \<open>Event bus: batching and fan-out\<close>

definition broadcast :: "IPCEvent \<Rightarrow> IPCEvent list list \<Rightarrow> IPCEvent list list" where
  "broadcast event clients = map (\<lambda>ch. if length ch < 100 then ch @ [event] else ch) clients"

definition handleBatchFlush :: "RequestDetails list \<Rightarrow> RequestDetails list \<Rightarrow> Server \<Rightarrow> Server" where
  "handleBatchFlush requests responses s =
     (let s1 = (if length requests > 0
                then s\<lparr>eventClients :=
                        broadcast \<lparr>Type = ''proxy-request-batch'', Data = requests\<rparr> (eventClients s)\<rparr>
                else s);
          s2 = (if length responses > 0
                then s1\<lparr>eventClients :=
                        broadcast \<lparr>Type = ''proxy-response-batch'', Data = responses\<rparr> (eventClients s1)\<rparr>
                else s1)
      in s2)"

definition scheduleBatchFlush :: "ProxyServer \<Rightarrow> ProxyServer" where
  "scheduleBatchFlush ps =
     (if batchTimer ps = None then ps\<lparr>batchTimer := Some (AfterFunc BatchInterval)\<rparr> else ps)"

text \<open>
  The section of \<^verbatim>\<open>flushBatches\<close> that holds \<^verbatim>\<open>batchMu\<close>: it stops and clears the
  timer, takes both batches and resets them.
\<close>

definition drainBatches ::
  "ProxyServer \<Rightarrow> ProxyServer \<times> RequestDetails list \<times> RequestDetails list" where
  "drainBatches ps =
     (let ps1 = (if batchTimer ps \<noteq> None then ps\<lparr>batchTimer := None\<rparr> else ps);
          rb = reqBatch ps1; sb = respBatch ps1
      in (ps1\<lparr>reqBatch := [], respBatch := []\<rparr>, rb, sb))"

definition flushBatches :: "ProxyServer \<Rightarrow> Server \<Rightarrow> ProxyServer \<times> Server" where
  "flushBatches ps s =
     (let (ps1, rb, sb) = drainBatches ps
      in case onBatchFlush ps1 of
           None \<Rightarrow> (ps1, s)
         | Some f \<Rightarrow> if length rb > 0 \<or> length sb > 0 then (ps1, f rb sb s) else (ps1, s))"

text \<open>
  The sections of \<^verbatim>\<open>emitRequest\<close> and \<^verbatim>\<open>emitResponse\<close> that hold \<^verbatim>\<open>batchMu\<close>:
  they append the record and decide whether the batch is full.
\<close>

definition appendRequestBatch :: "RequestDetails \<Rightarrow> ProxyServer \<Rightarrow> ProxyServer \<times> bool" where
  "appendRequestBatch details ps =
     (let ps' = ps\<lparr>reqBatch := reqBatch ps @ [details]\<rparr>
      in (ps', length (reqBatch ps') \<ge> BatchSize))"

definition appendResponseBatch :: "RequestDetails \<Rightarrow> ProxyServer \<Rightarrow> ProxyServer \<times> bool" where
  "appendResponseBatch details ps =
     (let ps' = ps\<lparr>respBatch := respBatch ps @ [details]\<rparr>
      in (ps', length (respBatch ps') \<ge> BatchSize))"


definition emitResponse :: "RequestDetails \<Rightarrow> ProxyServer \<Rightarrow> Server \<Rightarrow> (ProxyServer \<times> Server) option" where
  "emitResponse details ps s =
     (if Method details = ''CONNECT'' then Some (ps, s)
      else case updateInCache details ps of
        None \<Rightarrow> None
      | Some ps1 \<Rightarrow>
          (let (ps2, shouldFlush) = appendResponseBatch details ps1;
               (ps3, s3) = (if shouldFlush then flushBatches ps2 s
                            else (scheduleBatchFlush ps2, s))
           in case onResponse ps3 of
                None \<Rightarrow> Some (ps3, s3)
              | Some f \<Rightarrow> Some (ps3, f details s3)))"

text \<open>
  Goroutines interleave only between the sections that hold \<^verbatim>\<open>batchMu\<close>: the two
  appends, \<^verbatim>\<open>scheduleBatchFlush\<close> and the drain of \<^verbatim>\<open>flushBatches\<close>.  A schedule is a
  list of such sections in the order in which they get the lock; running it gives the
  final state and the batches drained on the way, oldest first.
\<close>

datatype BatchSection =
    AppendRequest RequestDetails
  | AppendResponse RequestDetails
  | ScheduleFlush
  | Drain

fun runSections ::
  "BatchSection list \<Rightarrow> ProxyServer
     \<Rightarrow> ProxyServer \<times> (RequestDetails list \<times> RequestDetails list) list" where
  "runSections [] ps = (ps, [])"
| "runSections (AppendRequest d # as) ps = runSections as (fst (appendRequestBatch d ps))"
| "runSections (AppendResponse d # as) ps = runSections as (fst (appendResponseBatch d ps))"
| "runSections (ScheduleFlush # as) ps = runSections as (scheduleBatchFlush ps)"
| "runSections (Drain # as) ps =
     (let (ps1, rb, sb) = drainBatches ps;
          (ps', out) = runSections as ps1
      in (ps', (rb, sb) # out))"

fun appendedRequests :: "BatchSection list \<Rightarrow> RequestDetails list" where
  "appendedRequests [] = []"
| "appendedRequests (AppendRequest d # as) = d # appendedRequests as"
| "appendedRequests (a # as) = appendedRequests as"

fun appendedResponses :: "BatchSection list \<Rightarrow> RequestDetails list" where
  "appendedResponses [] = []"
| "appendedResponses (AppendResponse d # as) = d # appendedResponses as"
| "appendedResponses (a # as) = appendedResponses as"

section \<open>The request and response handlers of \<^verbatim>\<open>setupHandlers\<close>\<close>



text \<open>
  The response handler.  When the upstream leg fails the proxy library calls it with a
  nil response, here \<open>None\<close>.
\<close>

definition OnResponseHandler ::
  "Decoders \<Rightarrow> ProxyServer \<Rightarrow> Server \<Rightarrow> Request \<Rightarrow> Response option \<Rightarrow> UserData option \<Rightarrow> int
     \<Rightarrow> (ProxyServer \<times> Server \<times> Response option) option" where
  "OnResponseHandler dec ps s req resp userData now =
     (case resp of
        None \<Rightarrow> Some (ps, s, resp)
      | Some r \<Rightarrow>
         (case userData of
            None \<Rightarrow> Some (ps, s, resp)
          | Some ud \<Rightarrow>
             (let (details, r') = captureResponse dec req r (reqID ud) (startTime ud) now
              in if shouldSave (config ps) (Host details)
                 then (case emitResponse details ps s of
                         None \<Rightarrow> None
                       | Some (ps2, s2) \<Rightarrow> Some (ps2, s2, Some r'))
                 else Some (ps, s, Some r'))))"

section \<open>Lifecycle and control plane\<close>

text \<open>
  \<^verbatim>\<open>net.Listen\<close> is a parameter: for a port it gives an error message or a listener.
\<close>

definition Start :: "(int \<Rightarrow> string + int) \<Rightarrow> ProxyServer \<Rightarrow> (string + unit) \<times> ProxyServer" where
  "Start listen ps =
     (if isRunning ps then (Inl ''proxy server already running'', ps)
      else case listen (Port (config ps)) of
             Inl err \<Rightarrow> (Inl (''failed to start proxy server: '' @ err), ps)
           | Inr l \<Rightarrow> (Inr (), ps\<lparr>listener := Some l, isRunning := True\<rparr>))"

definition GetStatus :: "ProxyServer \<Rightarrow> ProxyStatus" where
  "GetStatus ps = \<lparr>IsRunning = isRunning ps, StatusPort = Port (config ps),
     CertificatePath = CertPath (config ps)\<rparr>"

definition UpdateConfig :: "ProxyConfig \<Rightarrow> ProxyServer \<Rightarrow> ProxyServer" where
  "UpdateConfig cfg ps = ps\<lparr>config := cfg\<rparr>"

definition GetConfig :: "ProxyServer \<Rightarrow> ProxyConfig" where
  "GetConfig ps = config ps"

text \<open>
  A reply of the control plane: the plain-text reply of \<^verbatim>\<open>http.Error\<close>, or the JSON
  envelope with its HTTP status, \<^verbatim>\<open>success\<close>, \<^verbatim>\<open>error\<close> and \<^verbatim>\<open>data\<close>.
\<close>

datatype Reply =
    PlainError string nat
  | Envelope nat bool "string option" "ProxyStatus option"

definition sendSuccess :: "ProxyStatus \<Rightarrow> Reply" where
  "sendSuccess d = Envelope 200 True None (Some d)"

definition sendError :: "string \<Rightarrow> nat \<Rightarrow> Reply" where
  "sendError message statusCode = Envelope statusCode False (Some message) None"

text \<open>
  \<^verbatim>\<open>handleStart\<close>.  The body is given by the result of decoding it (\<open>None\<close> when it is
  not valid JSON, else the port).  \<^verbatim>\<open>GetConfig\<close> returns the pointer the server holds,
  so the assignment \<^verbatim>\<open>config.Port = req.Port\<close> writes into the server's configuration
  before \<^verbatim>\<open>UpdateConfig\<close> stores the same pointer again.
\<close>

definition handleStart ::
  "(int \<Rightarrow> string + int) \<Rightarrow> ProxyServer \<Rightarrow> string \<Rightarrow> int option \<Rightarrow> Reply \<times> ProxyServer" where
  "handleStart listen ps method body =
     (if method \<noteq> ''POST'' then (PlainError ''Method not allowed'' 405, ps)
      else case body of
        None \<Rightarrow> (sendError ''Invalid request body'' 400, ps)
      | Some port \<Rightarrow>
          (let ps1 = ps\<lparr>config := (GetConfig ps)\<lparr>Port := port\<rparr>\<rparr>;
               ps2 = UpdateConfig (GetConfig ps1) ps1
           in case Start listen ps2 of
                (Inl err, ps3) \<Rightarrow> (sendError err 500, ps3)
              | (Inr u, ps3) \<Rightarrow> (sendSuccess (GetStatus ps3), ps3)))"

section \<open>Leaf certificate cache\<close>

text \<open>
  A leaf certificate is identified by its common name and its DER bytes.  Of
  \<^verbatim>\<open>NewCertificateManager\<close> only the fields it sets are modelled; creating the
  directory and loading or generating the CA, which may fail, are left out.
  \<^verbatim>\<open>filepath.Join\<close> is a parameter.  The cache is
  a Go map, modelled as an association list with distinct keys.  Go visits the keys of
  a map in an unspecified order; the order of the list stands for the order of that
  visit, so what holds for every list holds for every order.
\<close>

record LeafCert =
  commonName :: string
  der :: string

record CertificateManager =
  certPath :: string
  keyPath :: string
  certCache :: "(string \<times> LeafCert) list"
  cacheMaxSize :: nat

definition NewCertificateManager :: "(string list \<Rightarrow> string) \<Rightarrow> string \<Rightarrow> CertificateManager" where
  "NewCertificateManager Join dataDir =
     \<lparr>certPath = Join [dataDir, ''certificates'', ''ca.crt''],
      keyPath = Join [dataDir, ''certificates'', ''ca.key''],
      certCache = [], cacheMaxSize = 100\<rparr>"

text \<open>The eviction loop: delete the visited key, stop once the size is below half the maximum.\<close>

fun evictLoop :: "nat \<Rightarrow> string list \<Rightarrow> (string \<times> LeafCert) list \<Rightarrow> (string \<times> LeafCert) list" where
  "evictLoop n [] c = c"
| "evictLoop n (k # ks) c =
     (let c' = AList.delete k c in
      if length c' < n div 2 then c' else evictLoop n ks c')"

text \<open>
  \<^verbatim>\<open>GenerateServerCertificate\<close>.  Key generation, the serial number and the signature
  draw on the random source and may fail; their outcome is the parameter \<open>made\<close>: an
  error message or the certificate.
\<close>

definition GenerateServerCertificate ::
  "CertificateManager \<Rightarrow> string \<Rightarrow> (string + LeafCert) \<Rightarrow> (string + LeafCert) \<times> CertificateManager" where
  "GenerateServerCertificate cm domain made =
     (case map_of (certCache cm) domain of
        Some cert \<Rightarrow> (Inr cert, cm)
      | None \<Rightarrow>
         (case made of
            Inl err \<Rightarrow> (Inl err, cm)
          | Inr cert \<Rightarrow>
              (let c1 = (if length (certCache cm) \<ge> cacheMaxSize cm
                         then evictLoop (cacheMaxSize cm) (map fst (certCache cm)) (certCache cm)
                         else certCache cm)
               in (Inr cert, cm\<lparr>certCache := AList.update domain cert c1\<rparr>))))"

text \<open>A run of issuances, each with its domain and the outcome of its generation.\<close>

fun issueAll :: "(string \<times> (string + LeafCert)) list \<Rightarrow> CertificateManager \<Rightarrow> CertificateManager" where
  "issueAll [] cm = cm"
| "issueAll ((d, made) # calls) cm = issueAll calls (snd (GenerateServerCertificate cm d made))"

section \<open>Abstraction of the capture store\<close>

text \<open>
  The live records of the circular buffer, oldest first: the \<open>cacheCount\<close> slots from
  \<open>cacheHead\<close> on, wrapping around.  The representation invariant says that the slice
  has its fixed length, that the indices are in range and that the tail is
  \<open>cacheCount\<close> slots after the head.
\<close>

definition live :: "ProxyServer \<Rightarrow> RequestDetails list" where
  "live ps = map (\<lambda>i. reqCache ps ! ((cacheHead ps + i) mod MaxCachedRequests)) [0..<cacheCount ps]"

definition cache_inv :: "ProxyServer \<Rightarrow> bool" where
  "cache_inv ps = (length (reqCache ps) = MaxCachedRequests \<and> cacheHead ps < MaxCachedRequests
     \<and> cacheCount ps \<le> MaxCachedRequests
     \<and> cacheTail ps = (cacheHead ps + cacheCount ps) mod MaxCachedRequests)"


text \<open>The last \<open>n\<close> elements of a list (all of it when it is shorter).\<close>

definition lastN :: "nat \<Rightarrow> 'a list \<Rightarrow> 'a list" where
  "lastN n xs = drop (length xs - n) xs"

section \<open>A worked exchange\<close>

text \<open>A stored request with a body, and the response that arrives for it.\<close>

definition exRecord :: RequestDetails where
  "exRecord = zeroDetails\<lparr>ID := 1, Host := ''shop.test'', Method := ''POST'', Body := ''a=1''\<rparr>"

definition exStore :: ProxyServer where
  "exStore = (NewProxyServer None [])\<lparr>reqCache := (replicate MaxCachedRequests zeroDetails)[0 := exRecord],
       cacheTail := 1, cacheCount := 1, requestID := 1\<rparr>"

definition exRequest :: Request where
  "exRequest = \<lparr>ReqHost = ''shop.test'', ReqMethod = ''POST'', URLPath = ''/cart'', RawQuery = [],
     ReqHeader = [], TLS = False, ReqBody = Some (Bytes ''a=1'')\<rparr>"


definition exDecoders :: Decoders where
  "exDecoders = \<lparr>gzipDecode = (\<lambda>b. None), brotliDecode = (\<lambda>b. (b, False))\<rparr>"

text \<open>An image response, and a gzip-compressed JSON response with its decoder.\<close>

definition exImage :: Response where
  "exImage = \<lparr>StatusCode = 200, RespHeader = [(''Content-Type'', [''image/png''])],
     RespBody = Some (Bytes ''PNG-data'')\<rparr>"

definition exGzipBody :: string where
  "exGzipBody = ''gzip-member-of-26-bytes:::''"

definition exGzipResponse :: Response where
  "exGzipResponse = \<lparr>StatusCode = 200,
     RespHeader = [(''Content-Type'', [''application/json'']), (''Content-Encoding'', [''gzip''])],
     RespBody = Some (Bytes exGzipBody)\<rparr>"

definition exGunzip :: Decoders where
  "exGunzip = \<lparr>gzipDecode = (\<lambda>b. if b = exGzipBody then Some (''{\"a\":1}'', False) else None),
     brotliDecode = (\<lambda>b. (b, True))\<rparr>"

text \<open>A proxy that is running on port 8080.\<close>

definition exRunning :: ProxyServer where
  "exRunning = (NewProxyServer None ''ca.crt'')\<lparr>listener := Some 8080, isRunning := True\<rparr>"


text \<open>A certificate manager whose cache holds 100 leaf certificates.\<close>

definition exLeaf :: "string \<Rightarrow> LeafCert" where
  "exLeaf d = \<lparr>commonName = d, der = []\<rparr>"

definition exFullCache :: "(string \<times> LeafCert) list" where
  "exFullCache = map (\<lambda>i. (replicate (Suc i) (CHR ''a'') @ ''.test'',
                            exLeaf (replicate (Suc i) (CHR ''a'') @ ''.test''))) [0..<100]"

fun exJoin :: "string list \<Rightarrow> string" where
  "exJoin [] = []"
| "exJoin [p] = p"
| "exJoin (p # ps) = p @ ''/'' @ exJoin ps"

definition exManager :: CertificateManager where
  "exManager = (NewCertificateManager exJoin ''/data'')\<lparr>certCache := exFullCache\<rparr>"

section \<open>Properties of the string primitives\<close>

lemma HasPrefix_iff_prefix: "HasPrefix s pre \<longleftrightarrow> prefix pre s"
  unfolding HasPrefix_def prefix_def
  by (metis append_eq_conv_conj append_take_drop_id le_add1 length_append)

lemma HasSuffix_iff_suffix: "HasSuffix s suf \<longleftrightarrow> suffix suf s"
proof
  assume "HasSuffix s suf"
  then have "s = take (length s - length suf) s @ suf"
    unfolding HasSuffix_def by (metis append_take_drop_id)
  then show "suffix suf s" unfolding suffix_def by blast
next
  assume "suffix suf s"
  then obtain zs where "s = zs @ suf" unfolding suffix_def by blast
  then show "HasSuffix s suf" unfolding HasSuffix_def by simp
qed

lemma anyMatch_iff: "anyMatch host ps \<longleftrightarrow> (\<exists>p \<in> set ps. matchesPattern host p)"
  by (induction ps) auto

lemma matchesPattern_wildcard_suffix:
  "matchesPattern h (''*.'' @ s) \<longleftrightarrow> suffix s h"
  by (auto simp: matchesPattern_def HasPrefix_def HasSuffix_iff_suffix suffix_def)

lemma shouldSave_outOfScope_first:
  "SaveOnlyInScope cfg \<Longrightarrow> p \<in> set (OutOfScope cfg) \<Longrightarrow> matchesPattern h p
     \<Longrightarrow> \<not> shouldSave cfg h"
  by (auto simp: shouldSave_def anyMatch_iff)

text \<open>
  Claim C1 (scope patterns).  The claim reads: a pattern \<^verbatim>\<open>*.suffix\<close> matches a host
  exactly when the host equals \<^verbatim>\<open>suffix\<close> or ends with \<^verbatim>\<open>.suffix\<close>, so that
  \<^verbatim>\<open>notexample.com\<close> does not match \<^verbatim>\<open>*.example.com\<close>.  The code compares against
  \<^verbatim>\<open>pattern[2:]\<close>, which has lost the dot: evaluated on that very host and pattern,
  \<^verbatim>\<open>matchesPattern\<close> answers true although the host neither equals
  \<^verbatim>\<open>example.com\<close> nor ends with \<^verbatim>\<open>.example.com\<close>, and with that pattern in scope
  the record is saved.
\<close>

theorem matchesPattern_notexample:
  "matchesPattern ''notexample.com'' ''*.example.com'' = True
   \<and> ''notexample.com'' \<noteq> ''example.com''
   \<and> \<not> suffix ''.example.com'' ''notexample.com''
   \<and> shouldSave \<lparr>Port = 8080, SSLInterception = True, CustomHeaders = [],
          SaveOnlyInScope = True, InScope = [''*.example.com''], OutOfScope = [],
          CertPath = ''''\<rparr> ''notexample.com'' = True"
  by (simp add: matchesPattern_def HasPrefix_def HasSuffix_def shouldSave_def suffix_def
      append_eq_append_conv2 append_eq_Cons_conv Cons_eq_append_conv)

section \<open>The circular buffer implements a bounded queue\<close>

lemma mod_inj_le: 
  assumes "i \<le> j" "j < M" "(h + i) mod M = (h + j) mod (M::nat)" shows "i = j"
proof -
  have "M dvd (h + j) - (h + i)" using assms by (metis add_le_cancel_left mod_eq_dvd_iff_nat)
  then have "M dvd j - i" by simp
  moreover have "j - i < M" using assms by simp
  ultimately have "j - i = 0" using nat_dvd_not_less by blast 
  then show ?thesis using assms by simp
qed

lemma mod_inj: "i < M \<Longrightarrow> j < M \<Longrightarrow> (h + i) mod M = (h + j) mod (M::nat) \<Longrightarrow> i = j"
  by (metis mod_inj_le nat_le_linear)

lemma MaxCachedRequests_pos: "0 < MaxCachedRequests"
  by (simp add: MaxCachedRequests_def)

lemma length_live: "length (live ps) = cacheCount ps"
  by (simp add: live_def)


lemma addToCache_not_full:
  assumes inv: "cache_inv ps" and lt: "cacheCount ps < MaxCachedRequests"
  shows "\<exists>ps'. addToCache r ps = Some ps' \<and> cache_inv ps' \<and> live ps' = live ps @ [r]"
proof -
  let ?M = MaxCachedRequests
  let ?t = "cacheTail ps"
  let ?ps' = "ps\<lparr>reqCache := (reqCache ps)[?t := r], cacheTail := (?t + 1) mod ?M,
                  cacheCount := cacheCount ps + 1\<rparr>"
  have t: "?t = (cacheHead ps + cacheCount ps) mod ?M" and len: "length (reqCache ps) = ?M"
    and h: "cacheHead ps < ?M"
    using inv by (simp_all add: cache_inv_def)
  have tlt: "?t < ?M" using t MaxCachedRequests_pos by simp
  have eq: "addToCache r ps = Some ?ps'"
    using tlt len lt by (simp add: addToCache_def)
  have inv': "cache_inv ?ps'"
    using inv lt t by (simp add: cache_inv_def mod_Suc_eq)
  have "live ?ps' = live ps @ [r]"
  proof (rule nth_equalityI)
    show "length (live ?ps') = length (live ps @ [r])" by (simp add: length_live)
  next
    fix i assume "i < length (live ?ps')"
    then have i: "i < cacheCount ps + 1" by (simp add: length_live)
    show "live ?ps' ! i = (live ps @ [r]) ! i"
    proof (cases "i = cacheCount ps")
      case True
      then show ?thesis using t tlt len by (simp add: live_def nth_append)
    next
      case False
      then have il: "i < cacheCount ps" using i by simp
      then have "(cacheHead ps + i) mod ?M \<noteq> ?t"
        using mod_inj[of i ?M "cacheCount ps" "cacheHead ps"] lt t by auto
      then show ?thesis using il by (simp add: live_def nth_append)
    qed
  qed
  with eq inv' show ?thesis by blast
qed

lemma addToCache_full:
  assumes inv: "cache_inv ps" and full: "cacheCount ps = MaxCachedRequests"
  shows "\<exists>ps'. addToCache r ps = Some ps' \<and> cache_inv ps' \<and> live ps' = tl (live ps) @ [r]"
proof -
  let ?M = MaxCachedRequests
  let ?h = "cacheHead ps"
  let ?ps' = "ps\<lparr>reqCache := (reqCache ps)[cacheTail ps := r], cacheTail := (cacheTail ps + 1) mod ?M,
                  cacheHead := (?h + 1) mod ?M\<rparr>"
  have len: "length (reqCache ps) = ?M" and h: "?h < ?M"
    and t: "cacheTail ps = (?h + cacheCount ps) mod ?M"
    using inv by (simp_all add: cache_inv_def)
  have th: "cacheTail ps = ?h" using t full h by simp
  have eq: "addToCache r ps = Some ?ps'"
    using th h len full by (simp add: addToCache_def)
  have inv': "cache_inv ?ps'"
    using inv full th MaxCachedRequests_pos by (simp add: cache_inv_def mod_Suc_eq)
  have "live ?ps' = tl (live ps) @ [r]"
  proof (rule nth_equalityI)
    show "length (live ?ps') = length (tl (live ps) @ [r])"
      using full MaxCachedRequests_pos by (simp add: length_live)
  next
    fix i assume "i < length (live ?ps')"
    then have i: "i < ?M" using full by (simp add: length_live)
    have idx: "((?h + 1) mod ?M + i) mod ?M = (?h + (i + 1)) mod ?M"
      by (simp add: mod_add_left_eq add.assoc)
    show "live ?ps' ! i = (tl (live ps) @ [r]) ! i"
    proof (cases "i + 1 = ?M")
      case True
      then have "(?h + (i + 1)) mod ?M = ?h" using h by simp
      then show ?thesis using True i th h len full idx
        by (simp add: live_def nth_append length_live)
    next
      case False
      then have il: "i + 1 < ?M" using i by simp
      have "(?h + (i + 1)) mod ?M \<noteq> (?h + 0) mod ?M"
        using mod_inj[of "i + 1" ?M 0 ?h] il MaxCachedRequests_pos by auto
      then have ne: "(?h + (i + 1)) mod ?M \<noteq> ?h" using h by simp
      have "tl (live ps) ! i = live ps ! (i + 1)"
        using il full by (simp add: nth_tl length_live)
      then show ?thesis using il i th full idx ne
        by (simp add: live_def nth_append length_live)
    qed
  qed
  with eq inv' show ?thesis by blast
qed


lemma readLoop_map:
  assumes "length (reqCache ps) = MaxCachedRequests"
  shows "readLoop ps is = Some (map (\<lambda>i. reqCache ps ! ((cacheHead ps + i) mod MaxCachedRequests)) is)"
  using assms MaxCachedRequests_pos by (induction "is") simp_all

lemma GetRequests_live:
  assumes "cache_inv ps"
  shows "GetRequests ps = Some (rev (live ps))"
  using assms by (simp add: GetRequests_def readLoop_map cache_inv_def live_def rev_map)


lemma lastN_append_lastN: "lastN n (lastN n xs @ ys) = lastN n (xs @ ys)"
proof (cases "length xs \<le> n")
  case True
  then show ?thesis by (simp add: lastN_def)
next
  case False
  then have "length xs + length ys - (length xs - n + n) + (length xs - n)
               = length xs + length ys - n" by simp
  then show ?thesis using False by (auto simp: lastN_def)
qed

lemma addToCache_lastN:
  assumes inv: "cache_inv ps"
  shows "\<exists>ps'. addToCache r ps = Some ps' \<and> cache_inv ps'
           \<and> live ps' = lastN MaxCachedRequests (live ps @ [r])"
proof (cases "cacheCount ps < MaxCachedRequests")
  case True
  then show ?thesis using addToCache_not_full[OF inv True, of r]
    by (auto simp: lastN_def length_live)
next
  case False
  then have full: "cacheCount ps = MaxCachedRequests" using inv by (simp add: cache_inv_def)
  have "live ps \<noteq> []" using full MaxCachedRequests_pos length_live[of ps] by auto
  then have "tl (live ps) @ [r] = lastN MaxCachedRequests (live ps @ [r])"
    using full by (cases "live ps") (auto simp: lastN_def length_live[symmetric])
  then show ?thesis using addToCache_full[OF inv full, of r] by auto
qed

lemma addAllToCache_lastN:
  assumes "cache_inv ps"
  shows "\<exists>ps'. addAllToCache rs ps = Some ps' \<and> cache_inv ps'
           \<and> live ps' = lastN MaxCachedRequests (live ps @ rs)"
  using assms
proof (induction rs arbitrary: ps)
  case Nil
  then show ?case by (simp add: lastN_def length_live cache_inv_def)
next
  case (Cons r rs)
  from addToCache_lastN[OF Cons.prems, of r] obtain ps1 where
    1: "addToCache r ps = Some ps1" "cache_inv ps1"
       "live ps1 = lastN MaxCachedRequests (live ps @ [r])" by blast
  from Cons.IH[OF 1(2)] obtain ps' where
    2: "addAllToCache rs ps1 = Some ps'" "cache_inv ps'"
       "live ps' = lastN MaxCachedRequests (live ps1 @ rs)" by blast
  have "live ps' = lastN MaxCachedRequests (live ps @ r # rs)"
    using 1(3) 2(3) lastN_append_lastN[of MaxCachedRequests "live ps @ [r]" rs] by simp
  with 1 2 show ?case by simp
qed

lemma NewProxyServer_inv: "cache_inv (NewProxyServer cfg p)"
  by (simp add: cache_inv_def NewProxyServer_def MaxCachedRequests_def)

lemma NewProxyServer_live: "live (NewProxyServer cfg p) = []"
  by (simp add: live_def NewProxyServer_def)

lemma rev_lastN: "rev (lastN n xs) = take n (rev xs)"
  by (cases "n \<le> length xs") (simp_all add: lastN_def rev_drop)

lemma store_snapshot:
  "\<exists>ps'. addAllToCache rs (NewProxyServer cfg p) = Some ps'
      \<and> GetRequests ps' = Some (take MaxCachedRequests (rev rs))"
  using addAllToCache_lastN[OF NewProxyServer_inv, of rs cfg p]
  by (auto simp: GetRequests_live NewProxyServer_live rev_lastN)


lemma take_rev_upto:
  assumes "i \<le> j" "j \<le> k" "n = nat (k - j)"
  shows "take n (rev [i..k]) = rev [j + 1..k]"
proof -
  have "[i..k] = [i..j] @ [j + 1..k]" by (rule upto_split2) (use assms in simp_all)
  moreover have "length [j + 1..k] = n" using assms by simp
  ultimately show ?thesis by simp
qed

lemma map_ID_update: "map ID (map (\<lambda>i. d\<lparr>ID := i\<rparr>) xs) = xs"
  by (induction xs) simp_all

lemma last_upto_le:
  assumes "a \<le> b" shows "last [a..b] = b"
proof -
  have "[a..b] = [a..b - 1] @ [b]" by (rule upto_rec2) (rule assms)
  then show ?thesis by (simp only: last_snoc)
qed

lemma hd_upto_le:
  assumes "a \<le> b" shows "hd [a..b] = a"
proof -
  have "[a..b] = a # [a + 1..b]" by (rule upto_rec1) (rule assms)
  then show ?thesis by (simp only: list.sel)
qed

lemma snapshot_ends:
  assumes "a \<le> b"
  shows "ID (hd (map (\<lambda>i. d\<lparr>ID := i\<rparr>) (rev [a..b]))) = b"
    and "ID (last (map (\<lambda>i. d\<lparr>ID := i\<rparr>) (rev [a..b]))) = a"
proof -
  have ne: "[a..b] \<noteq> []" using assms by simp
  have "hd (rev [a..b]) = b" using assms ne by (simp add: hd_rev last_upto_le)
  then show "ID (hd (map (\<lambda>i. d\<lparr>ID := i\<rparr>) (rev [a..b]))) = b"
    using ne by (simp add: hd_map)
  have "last (rev [a..b]) = a" using assms ne by (simp add: last_rev hd_upto_le)
  then show "ID (last (map (\<lambda>i. d\<lparr>ID := i\<rparr>) (rev [a..b]))) = a"
    using ne by (simp add: last_map)
qed


text \<open>
  Claim C6 (ring eviction).  The capture store is a circular buffer of capacity 1000:
  after appending any sequence of records to a fresh store, the snapshot is the newest
  1000 of them (all of them when fewer), newest first, so a full store loses exactly its
  oldest record at each append.  In particular, after appending 1500 records with the
  ids 1 to 1500 in order, the snapshot has length 1000, its first entry has id 1500 and
  its last entry has id 501.
\<close>

theorem capture_store_newest_first:
  "(\<exists>ps'. addAllToCache rs (NewProxyServer cfg p) = Some ps'
       \<and> GetRequests ps' = Some (take 1000 (rev rs)))
   \<and> (\<exists>ps' snap. addAllToCache (map (\<lambda>i. d\<lparr>ID := i\<rparr>) [1..1500]) (NewProxyServer cfg p) = Some ps'
       \<and> GetRequests ps' = Some snap \<and> length snap = 1000
       \<and> ID (hd snap) = 1500 \<and> ID (last snap) = 501 \<and> map ID snap = rev [501..1500])"
proof
  show "\<exists>ps'. addAllToCache rs (NewProxyServer cfg p) = Some ps'
       \<and> GetRequests ps' = Some (take 1000 (rev rs))"
    using store_snapshot[of rs cfg p] by (simp only: MaxCachedRequests_def)
next
  define old :: "int list" where "old = [1..1500]"
  define new :: "int list" where "new = [501..1500]"
  let ?f = "\<lambda>i. d\<lparr>ID := i\<rparr>"
  have e: "(500::int) + 1 = 501" by simp
  have "take (nat (1500 - 500)) (rev [1..1500]) = rev [500 + 1..1500]"
    by (rule take_rev_upto) simp_all
  moreover have "nat (1500 - 500) = 1000" by simp
  ultimately have tk: "take 1000 (rev old) = rev new"
    unfolding old_def new_def e by (simp only:)
  have "length [501..1500] = nat (1500 - 501 + 1)" by (rule length_upto)
  moreover have "nat (1500 - 501 + 1) = 1000" by simp
  ultimately have len: "length new = 1000" unfolding new_def by (simp only:)
  have "ID (hd (map ?f (rev [501..1500]))) = 1500" by (rule snapshot_ends) simp
  then have hd: "ID (hd (map ?f (rev new))) = 1500" unfolding new_def .
  have "ID (last (map ?f (rev [501..1500]))) = 501" by (rule snapshot_ends) simp
  then have lst: "ID (last (map ?f (rev new))) = 501" unfolding new_def .
  obtain ps' where 1: "addAllToCache (map ?f old) (NewProxyServer cfg p) = Some ps'"
    and 2: "GetRequests ps' = Some (take MaxCachedRequests (rev (map ?f old)))"
    using store_snapshot[of "map ?f old" cfg p] by blast
  have "take MaxCachedRequests (rev (map ?f old)) = map ?f (take 1000 (rev old))"
    by (simp add: MaxCachedRequests_def rev_map take_map)
  then have 3: "GetRequests ps' = Some (map ?f (rev new))" using 2 tk by simp
  have ids: "map ID (map ?f (rev new)) = rev new" by (rule map_ID_update)
  have l: "length (map ?f (rev new)) = 1000" using len by simp
  have "\<exists>ps' snap. addAllToCache (map ?f old) (NewProxyServer cfg p) = Some ps'
       \<and> GetRequests ps' = Some snap \<and> length snap = 1000
       \<and> ID (hd snap) = 1500 \<and> ID (last snap) = 501 \<and> map ID snap = rev new"
    using 1 3 ids l hd lst by blast
  then show "\<exists>ps' snap. addAllToCache (map ?f [1..1500]) (NewProxyServer cfg p) = Some ps'
       \<and> GetRequests ps' = Some snap \<and> length snap = 1000
       \<and> ID (hd snap) = 1500 \<and> ID (last snap) = 501 \<and> map ID snap = rev [501..1500]"
    unfolding old_def new_def .
qed

section \<open>Update by id\<close>

















lemma exStore_inv: "cache_inv exStore"
  by (simp add: exStore_def cache_inv_def NewProxyServer_def MaxCachedRequests_def)

lemma exStore_live: "live exStore = [exRecord]"
  by (simp add: exStore_def live_def NewProxyServer_def MaxCachedRequests_def)


section \<open>Upstream failures\<close>

text \<open>
  Claim C3, as amended.  When the upstream leg fails, the response handler is called
  without a response and returns at once: it synthesizes no record, so the proxy state
  (store, batches, timer) and the observers are exactly as before, and no response is
  handed back.
\<close>

theorem upstream_failure_emits_nothing:
  "OnResponseHandler dec ps s req None ud now = Some (ps, s, None)"
  by (simp add: OnResponseHandler_def)

text \<open>
  The claim as stated asks for a completed record with the failure category in its
  error field.  After a failed exchange for the stored request 1 nothing has been added
  to the response batch, no observer has received an event, and the stored record is
  still the request-time one, with an empty error field.
\<close>

theorem upstream_failure_counterexample:
  "OnResponseHandler exDecoders exStore \<lparr>eventClients = [[]]\<rparr> exRequest None
       (Some \<lparr>startTime = 0, reqID = 1\<rparr>) 30000
     = Some (exStore, \<lparr>eventClients = [[]]\<rparr>, None)
   \<and> respBatch exStore = []
   \<and> GetRequests exStore = Some [exRecord]
   \<and> ID exRecord = 1 \<and> Error exRecord = []"
proof -
  have "GetRequests exStore = Some [exRecord]"
    using GetRequests_live[OF exStore_inv] by (simp add: exStore_live)
  then show ?thesis
    by (simp add: OnResponseHandler_def exStore_def NewProxyServer_def exRecord_def zeroDetails_def)
qed

section \<open>Response capture\<close>

text \<open>
  Claim C4, as amended.  For a response whose content type the heuristic classifies as
  non-textual, the capture step does not read the body: the response is handed on
  unchanged, the captured response body is empty and the recorded response length is 0.
\<close>

theorem non_textual_body_not_captured:
  assumes "\<not> shouldCaptureBody (HeaderGet (RespHeader resp) ''Content-Type'')"
  shows "snd (captureResponse dec req resp rid start now) = resp
       \<and> ResponseBody (fst (captureResponse dec req resp rid start now)) = []
       \<and> ResponseLength (fst (captureResponse dec req resp rid start now)) = 0"
  using assms by (simp add: captureResponse_def Let_def split: option.splits)

lemma exImage_nontextual: "\<not> shouldCaptureBody (HeaderGet (RespHeader exImage) ''Content-Type'')"
  by code_simp

theorem non_textual_body_not_captured_witness:
  "\<not> shouldCaptureBody (HeaderGet (RespHeader exImage) ''Content-Type'')
   \<and> snd (captureResponse exDecoders exRequest exImage 1 0 5) = exImage
   \<and> ResponseBody (fst (captureResponse exDecoders exRequest exImage 1 0 5)) = []
   \<and> ResponseLength (fst (captureResponse exDecoders exRequest exImage 1 0 5)) = 0"
  using non_textual_body_not_captured[OF exImage_nontextual, of exDecoders exRequest 1 0 5]
    exImage_nontextual by simp

text \<open>
  The claim as stated has the response length count the body bytes.  For an image of 8
  bytes the recorded length is 0, not 8.
\<close>

theorem non_textual_length_counterexample:
  "\<not> shouldCaptureBody (HeaderGet (RespHeader exImage) ''Content-Type'')
   \<and> RespBody exImage = Some (Bytes ''PNG-data'')
   \<and> ResponseLength (fst (captureResponse exDecoders exRequest exImage 1 0 5)) = 0
   \<and> ResponseLength (fst (captureResponse exDecoders exRequest exImage 1 0 5))
        \<noteq> min (length ''PNG-data'') MaxBodySize"
proof -
  have "ResponseLength (fst (captureResponse exDecoders exRequest exImage 1 0 5)) = 0"
    using exImage_nontextual by (simp add: captureResponse_def Let_def split: option.splits)
  moreover have "RespBody exImage = Some (Bytes ''PNG-data'')" by (simp add: exImage_def)
  moreover have "min (length ''PNG-data'') MaxBodySize = 8" by (simp add: MaxBodySize_def)
  ultimately show ?thesis using exImage_nontextual by simp
qed

text \<open>
  Claim C8 (gzip).  For a textual response whose content encoding names gzip and whose
  compressed body of \<open>n\<close> bytes fits the cap, the record has response length \<open>n\<close>, the
  count before decompression, and its response body is the output of the gzip decoder.
  The instance that follows is a body of 26 compressed bytes that decodes to the JSON text
  of seven characters.
\<close>

theorem gzip_length_before_decompression:
  assumes ct: "shouldCaptureBody (HeaderGet (RespHeader resp) ''Content-Type'')"
    and ce: "Contains (ToLower (HeaderGet (RespHeader resp) ''Content-Encoding'')) ''gzip''"
    and body: "RespBody resp = Some (Bytes b)"
    and cap: "length b \<le> MaxBodySize"
    and gz: "gzipDecode dec b = Some (t, False)"
  shows "ResponseLength (fst (captureResponse dec req resp rid start now)) = length b
       \<and> ResponseBody (fst (captureResponse dec req resp rid start now)) = t"
proof -
  have ne: "HeaderGet (RespHeader resp) ''Content-Encoding'' \<noteq> []"
    using ce by (auto simp: ToLower_def)
  have d: "decompressResponse dec b (HeaderGet (RespHeader resp) ''Content-Encoding'') = (t, False)"
    using ne ce gz by (simp add: decompressResponse_def)
  show ?thesis
    using ct body cap d by (simp add: captureResponse_def Let_def)
qed

theorem gzip_length_before_decompression_witness:
  "shouldCaptureBody (HeaderGet (RespHeader exGzipResponse) ''Content-Type'')
   \<and> Contains (ToLower (HeaderGet (RespHeader exGzipResponse) ''Content-Encoding'')) ''gzip''
   \<and> RespBody exGzipResponse = Some (Bytes exGzipBody)
   \<and> length exGzipBody \<le> MaxBodySize
   \<and> gzipDecode exGunzip exGzipBody = Some (''{\"a\":1}'', False)
   \<and> ResponseLength (fst (captureResponse exGunzip exRequest exGzipResponse 1 0 5)) = 26
   \<and> ResponseBody (fst (captureResponse exGunzip exRequest exGzipResponse 1 0 5)) = ''{\"a\":1}''"
proof -
  have ct: "shouldCaptureBody (HeaderGet (RespHeader exGzipResponse) ''Content-Type'')"
    by code_simp
  have ce: "Contains (ToLower (HeaderGet (RespHeader exGzipResponse) ''Content-Encoding'')) ''gzip''"
    by code_simp
  have body: "RespBody exGzipResponse = Some (Bytes exGzipBody)"
    by (simp add: exGzipResponse_def)
  have cap: "length exGzipBody \<le> MaxBodySize"
    by (simp add: exGzipBody_def MaxBodySize_def)
  have gz: "gzipDecode exGunzip exGzipBody = Some (''{\"a\":1}'', False)"
    by (simp add: exGunzip_def)
  have len: "length exGzipBody = 26" by (simp add: exGzipBody_def)
  show ?thesis
    using gzip_length_before_decompression[OF ct ce body cap gz, of exRequest 1 0 5]
      ct ce body cap gz len by simp
qed

section \<open>Batch flush\<close>

lemma drainBatches_eq:
  "drainBatches ps =
     (ps\<lparr>batchTimer := None, reqBatch := [], respBatch := []\<rparr>, reqBatch ps, respBatch ps)"
proof (cases "batchTimer ps")
  case None
  then have "ps\<lparr>batchTimer := None\<rparr> = ps" by (cases ps) simp
  then have "ps\<lparr>batchTimer := None, reqBatch := [], respBatch := []\<rparr> = ps\<lparr>reqBatch := [], respBatch := []\<rparr>"
    by simp
  then show ?thesis using None by (simp add: drainBatches_def Let_def)
next
  case (Some t)
  then show ?thesis by (simp add: drainBatches_def Let_def)
qed

lemma runSections_requests:
  "concat (map fst (snd (runSections as ps))) @ reqBatch (fst (runSections as ps))
     = reqBatch ps @ appendedRequests as"
proof (induction as arbitrary: ps)
  case Nil
  then show ?case by simp
next
  case (Cons a as)
  show ?case
  proof (cases a)
    case (AppendRequest d)
    then show ?thesis
      using Cons.IH[of "ps\<lparr>reqBatch := reqBatch ps @ [d]\<rparr>"]
      by (simp add: appendRequestBatch_def Let_def)
  next
    case (AppendResponse d)
    then show ?thesis
      using Cons.IH[of "ps\<lparr>respBatch := respBatch ps @ [d]\<rparr>"]
      by (simp add: appendResponseBatch_def Let_def)
  next
    case ScheduleFlush
    then show ?thesis
      using Cons.IH[of "scheduleBatchFlush ps"] by (simp add: scheduleBatchFlush_def)
  next
    case Drain
    then show ?thesis
      using Cons.IH[of "ps\<lparr>batchTimer := None, reqBatch := [], respBatch := []\<rparr>"]
      by (auto simp: drainBatches_eq split: prod.splits)
  qed
qed

lemma runSections_responses:
  "concat (map snd (snd (runSections as ps))) @ respBatch (fst (runSections as ps))
     = respBatch ps @ appendedResponses as"
proof (induction as arbitrary: ps)
  case Nil
  then show ?case by simp
next
  case (Cons a as)
  show ?case
  proof (cases a)
    case (AppendRequest d)
    then show ?thesis
      using Cons.IH[of "ps\<lparr>reqBatch := reqBatch ps @ [d]\<rparr>"]
      by (simp add: appendRequestBatch_def Let_def)
  next
    case (AppendResponse d)
    then show ?thesis
      using Cons.IH[of "ps\<lparr>respBatch := respBatch ps @ [d]\<rparr>"]
      by (simp add: appendResponseBatch_def Let_def)
  next
    case ScheduleFlush
    then show ?thesis
      using Cons.IH[of "scheduleBatchFlush ps"] by (simp add: scheduleBatchFlush_def)
  next
    case Drain
    then show ?thesis
      using Cons.IH[of "ps\<lparr>batchTimer := None, reqBatch := [], respBatch := []\<rparr>"]
      by (auto simp: drainBatches_eq split: prod.splits)
  qed
qed

lemma flushBatches_with_handler:
  "flushBatches (ps\<lparr>onBatchFlush := Some handleBatchFlush\<rparr>) s =
     (ps\<lparr>onBatchFlush := Some handleBatchFlush, batchTimer := None, reqBatch := [], respBatch := []\<rparr>,
      s\<lparr>eventClients :=
           map (\<lambda>ch.
                  (let ch1 = (if length (reqBatch ps) > 0 \<and> length ch < 100
                              then ch @ [\<lparr>Type = ''proxy-request-batch'', Data = reqBatch ps\<rparr>]
                              else ch)
                   in if length (respBatch ps) > 0 \<and> length ch1 < 100
                      then ch1 @ [\<lparr>Type = ''proxy-response-batch'', Data = respBatch ps\<rparr>]
                      else ch1))
               (eventClients s)\<rparr>)"
  by (simp add: flushBatches_def drainBatches_eq handleBatchFlush_def broadcast_def Let_def
      cong: map_cong)


lemma flushBatches_without_handler:
  "flushBatches (ps\<lparr>onBatchFlush := None\<rparr>) s =
     (ps\<lparr>onBatchFlush := None, batchTimer := None, reqBatch := [], respBatch := []\<rparr>, s)"
  by (simp add: flushBatches_def drainBatches_eq)

lemma flush_channel_growth:
  "list_all2
     (\<lambda>old new. \<exists>es. new = old @ es \<and> length es \<le> 2
        \<and> subseq es
             ((if length (reqBatch ps) > 0
               then [\<lparr>Type = ''proxy-request-batch'', Data = reqBatch ps\<rparr>] else []) @
              (if length (respBatch ps) > 0
               then [\<lparr>Type = ''proxy-response-batch'', Data = respBatch ps\<rparr>] else [])))
     (eventClients s)
     (eventClients (snd (flushBatches (ps\<lparr>onBatchFlush := Some handleBatchFlush\<rparr>) s)))"
  unfolding flushBatches_with_handler
  by (auto simp: list_all2_map2 list_all2_same Let_def)


text \<open>
  Claim C7 (flush).  The locked section of a flush takes both batches, empties both
  buffers and clears the timer in one step.  With the IPC server's handler installed,
  every observer channel then receives, as far as it has room, first the request batch
  event when the drained request batch is non-empty and then the response batch event
  when the drained response batch is non-empty, each carrying its drained batch: at
  most two events per channel, none for an empty batch, and nothing else of the proxy
  state changes.  Without a handler the flush only drains.  Under every schedule of the
  locked sections no record is lost or delivered twice: the drained request batches,
  followed by what is still buffered, are exactly the appended requests in order, and
  likewise for the responses.
\<close>

theorem flush_drains_and_emits_at_most_two:
  "drainBatches ps =
     (ps\<lparr>batchTimer := None, reqBatch := [], respBatch := []\<rparr>, reqBatch ps, respBatch ps)
   \<and> flushBatches (ps\<lparr>onBatchFlush := Some handleBatchFlush\<rparr>) s =
     (ps\<lparr>onBatchFlush := Some handleBatchFlush, batchTimer := None, reqBatch := [], respBatch := []\<rparr>,
      s\<lparr>eventClients :=
           map (\<lambda>ch.
                  (let ch1 = (if length (reqBatch ps) > 0 \<and> length ch < 100
                              then ch @ [\<lparr>Type = ''proxy-request-batch'', Data = reqBatch ps\<rparr>]
                              else ch)
                   in if length (respBatch ps) > 0 \<and> length ch1 < 100
                      then ch1 @ [\<lparr>Type = ''proxy-response-batch'', Data = respBatch ps\<rparr>]
                      else ch1))
               (eventClients s)\<rparr>)
   \<and> list_all2
       (\<lambda>old new. \<exists>es. new = old @ es \<and> length es \<le> 2
          \<and> subseq es
               ((if length (reqBatch ps) > 0
                 then [\<lparr>Type = ''proxy-request-batch'', Data = reqBatch ps\<rparr>] else []) @
                (if length (respBatch ps) > 0
                 then [\<lparr>Type = ''proxy-response-batch'', Data = respBatch ps\<rparr>] else [])))
       (eventClients s)
       (eventClients (snd (flushBatches (ps\<lparr>onBatchFlush := Some handleBatchFlush\<rparr>) s)))
   \<and> flushBatches (ps\<lparr>onBatchFlush := None\<rparr>) s =
     (ps\<lparr>onBatchFlush := None, batchTimer := None, reqBatch := [], respBatch := []\<rparr>, s)
   \<and> concat (map fst (snd (runSections sched ps))) @ reqBatch (fst (runSections sched ps))
        = reqBatch ps @ appendedRequests sched
   \<and> concat (map snd (snd (runSections sched ps))) @ respBatch (fst (runSections sched ps))
        = respBatch ps @ appendedResponses sched"
  using drainBatches_eq[of ps] flushBatches_with_handler[of ps s] flush_channel_growth[of ps s]
    flushBatches_without_handler[of ps s] runSections_requests[of sched ps]
    runSections_responses[of sched ps]
  by (intro conjI)

text \<open>
  Two observers, one with an empty channel and one whose channel is full: the first
  receives both events, the second none.
\<close>

lemma flush_two_observers:
  "eventClients (snd (flushBatches
      ((NewProxyServer None [])\<lparr>reqBatch := [exRecord], respBatch := [zeroDetails],
          batchTimer := Some (AfterFunc BatchInterval), onBatchFlush := Some handleBatchFlush\<rparr>)
      \<lparr>eventClients = [[], replicate 100 \<lparr>Type = ''proxy-request-batch'', Data = []\<rparr>]\<rparr>))
   = [[\<lparr>Type = ''proxy-request-batch'', Data = [exRecord]\<rparr>,
       \<lparr>Type = ''proxy-response-batch'', Data = [zeroDetails]\<rparr>],
      replicate 100 \<lparr>Type = ''proxy-request-batch'', Data = []\<rparr>]"
  by (simp add: flushBatches_def drainBatches_def handleBatchFlush_def broadcast_def Let_def
      NewProxyServer_def)


section \<open>Starting a running proxy\<close>

lemma handleStart_running:
  assumes "isRunning ps"
  shows "handleStart listen ps ''POST'' (Some port) =
           (sendError ''proxy server already running'' 500, ps\<lparr>config := (config ps)\<lparr>Port := port\<rparr>\<rparr>)"
  using assms by (simp add: handleStart_def Start_def GetConfig_def UpdateConfig_def Let_def)

text \<open>
  Claim C5 (double start).  The claim reads: a start request while the proxy is running
  fails with \<^verbatim>\<open>success:false\<close> and the error \<^verbatim>\<open>proxy server already running\<close>, and
  changes no observable state, the configured port included.  The reply is as claimed,
  but \<^verbatim>\<open>handleStart\<close> writes the requested port into the configuration before
  \<^verbatim>\<open>Start\<close> rejects the call: a proxy listening on 8080 reports port 9999 afterwards.
\<close>

theorem handleStart_running_changes_port:
  "isRunning exRunning \<and> GetStatus exRunning = \<lparr>IsRunning = True, StatusPort = 8080, CertificatePath = ''ca.crt''\<rparr>
   \<and> fst (handleStart (\<lambda>p. Inr p) exRunning ''POST'' (Some 9999))
        = Envelope 500 False (Some ''proxy server already running'') None
   \<and> GetStatus (snd (handleStart (\<lambda>p. Inr p) exRunning ''POST'' (Some 9999)))
        = \<lparr>IsRunning = True, StatusPort = 9999, CertificatePath = ''ca.crt''\<rparr>
   \<and> listener (snd (handleStart (\<lambda>p. Inr p) exRunning ''POST'' (Some 9999))) = Some 8080"
  by (simp add: handleStart_def Start_def GetConfig_def UpdateConfig_def Let_def exRunning_def
      NewProxyServer_def defaultConfig_def GetStatus_def sendError_def)

section \<open>Header sanitization\<close>















section \<open>Leaf certificate cache: the size bound\<close>

lemma evictLoop_distinct:
  "distinct (map fst c) \<Longrightarrow> distinct (map fst (evictLoop n ks c))"
  by (induction ks arbitrary: c) (simp_all add: Let_def distinct_delete)

lemma evictLoop_subset: "set (evictLoop n ks c) \<subseteq> set c"
proof (induction ks arbitrary: c)
  case Nil
  then show ?case by simp
next
  case (Cons k ks)
  have "set (AList.delete k c) \<subseteq> set c" by (auto simp: AList.delete_eq)
  then show ?case using Cons.IH[of "AList.delete k c"] by (auto simp: Let_def)
qed

lemma evictLoop_length_all_keys:
  assumes "fst ` set c \<subseteq> set ks"
  shows "length (evictLoop n ks c) < n div 2 \<or> evictLoop n ks c = []"
  using assms
proof (induction ks arbitrary: c)
  case Nil
  then show ?case by simp
next
  case (Cons k ks)
  have "fst ` set (AList.delete k c) \<subseteq> set ks"
    using Cons.prems by (auto simp: AList.delete_eq)
  from Cons.IH[OF this] show ?case by (simp add: Let_def)
qed

lemma delete_head:
  assumes "k \<notin> fst ` set c"
  shows "AList.delete k ((k, v) # c) = c"
  using assms by (simp add: AList.delete_eq filter_id_conv) force

lemma evictLoop_length_exact:
  assumes "distinct (map fst c)"
  shows "length (evictLoop n (map fst c) c) =
           (if length c \<le> n div 2 then length c - 1 else n div 2 - 1)"
  using assms
proof (induction c)
  case Nil
  then show ?case by simp
next
  case (Cons x c)
  obtain k v where x: "x = (k, v)" by (cases x)
  have d: "AList.delete k ((k, v) # c) = c"
    using Cons.prems x by (intro delete_head) simp
  have "distinct (map fst c)" using Cons.prems by simp
  from Cons.IH[OF this] show ?case
    unfolding x using d by (auto simp: Let_def)
qed


lemma update_new_key:
  "k \<notin> fst ` set al \<Longrightarrow> AList.update k v al = al @ [(k, v)]"
  by (induction al) auto

lemma GenerateServerCertificate_hit:
  assumes "map_of (certCache cm) domain = Some cert"
  shows "GenerateServerCertificate cm domain made = (Inr cert, cm)"
  using assms by (simp add: GenerateServerCertificate_def)

lemma GenerateServerCertificate_failed:
  assumes "map_of (certCache cm) domain = None"
  shows "GenerateServerCertificate cm domain (Inl err) = (Inl err, cm)"
  using assms by (simp add: GenerateServerCertificate_def)

lemma GenerateServerCertificate_miss_room:
  assumes "map_of (certCache cm) domain = None" and "length (certCache cm) < cacheMaxSize cm"
  shows "GenerateServerCertificate cm domain (Inr cert) =
           (Inr cert, cm\<lparr>certCache := certCache cm @ [(domain, cert)]\<rparr>)"
proof -
  have "domain \<notin> fst ` set (certCache cm)" using assms(1) by (simp add: map_of_eq_None_iff)
  then show ?thesis
    using assms by (simp add: GenerateServerCertificate_def update_new_key)
qed

lemma GenerateServerCertificate_miss_full:
  assumes "map_of (certCache cm) domain = None" and "cacheMaxSize cm \<le> length (certCache cm)"
  shows "GenerateServerCertificate cm domain (Inr cert) =
           (Inr cert, cm\<lparr>certCache := evictLoop (cacheMaxSize cm) (map fst (certCache cm)) (certCache cm)
                                        @ [(domain, cert)]\<rparr>)"
proof -
  have "domain \<notin> fst ` set (certCache cm)" using assms(1) by (simp add: map_of_eq_None_iff)
  then have "domain \<notin> fst ` set (evictLoop (cacheMaxSize cm) (map fst (certCache cm)) (certCache cm))"
    using evictLoop_subset[of "cacheMaxSize cm" "map fst (certCache cm)" "certCache cm"] by auto
  then show ?thesis
    using assms by (simp add: GenerateServerCertificate_def update_new_key)
qed

lemma leaf_cache_step:
  assumes N: "cacheMaxSize cm = 100"
    and dist: "distinct (map fst (certCache cm))"
    and le: "length (certCache cm) \<le> 100"
  shows "cacheMaxSize (snd (GenerateServerCertificate cm domain made)) = 100
     \<and> distinct (map fst (certCache (snd (GenerateServerCertificate cm domain made))))
     \<and> length (certCache (snd (GenerateServerCertificate cm domain made))) \<le> 100
     \<and> (map_of (certCache cm) domain = None \<and> made = Inr cert \<and> 100 \<le> length (certCache cm) \<longrightarrow>
          length (certCache (snd (GenerateServerCertificate cm domain made))) = 50
        \<and> map_of (certCache (snd (GenerateServerCertificate cm domain made))) domain = Some cert
        \<and> set (certCache (snd (GenerateServerCertificate cm domain made)))
             \<subseteq> insert (domain, cert) (set (certCache cm)))"
proof (cases "map_of (certCache cm) domain")
  case (Some c)
  then show ?thesis using N dist le by (simp add: GenerateServerCertificate_hit)
next
  case None
  then have fresh: "domain \<notin> fst ` set (certCache cm)" by (simp add: map_of_eq_None_iff)
  show ?thesis
  proof (cases made)
    case (Inl err)
    then show ?thesis using None N dist le by (simp add: GenerateServerCertificate_failed)
  next
    case (Inr c)
    show ?thesis
    proof (cases "length (certCache cm) < 100")
      case True
      then have "GenerateServerCertificate cm domain made =
                   (Inr c, cm\<lparr>certCache := certCache cm @ [(domain, c)]\<rparr>)"
        using None Inr N by (simp add: GenerateServerCertificate_miss_room)
      then show ?thesis using True N dist fresh by simp
    next
      case False
      then have full: "length (certCache cm) = 100" using le by simp
      let ?e = "evictLoop 100 (map fst (certCache cm)) (certCache cm)"
      have g: "GenerateServerCertificate cm domain made =
                   (Inr c, cm\<lparr>certCache := ?e @ [(domain, c)]\<rparr>)"
        using None Inr N full GenerateServerCertificate_miss_full[of cm domain c] by simp
      have len: "length ?e = 49"
        using evictLoop_length_exact[OF dist, of 100] full by simp
      have sub: "set ?e \<subseteq> set (certCache cm)" by (rule evictLoop_subset)
      have de: "distinct (map fst ?e)" using dist by (rule evictLoop_distinct)
      have fe: "domain \<notin> fst ` set ?e" using fresh sub by auto
      have me: "map_of ?e domain = None" using fe by (simp add: map_of_eq_None_iff)
      show ?thesis using g len sub de fe me N Inr by (auto simp: map_add_def)
    qed
  qed
qed

lemma issueAll_bounded:
  assumes "cacheMaxSize cm = 100" "distinct (map fst (certCache cm))" "length (certCache cm) \<le> 100"
  shows "length (certCache (issueAll calls cm)) \<le> 100"
  using assms
proof (induction calls arbitrary: cm)
  case Nil
  then show ?case by simp
next
  case (Cons call calls)
  obtain d made where c: "call = (d, made)" by (cases call)
  from leaf_cache_step[OF Cons.prems, of d made]
  show ?case unfolding c by (simp add: Cons.IH)
qed


lemma leaf_cache_bounded_run:
  "length (certCache (issueAll calls (NewCertificateManager Join dataDir))) \<le> 100"
  by (rule issueAll_bounded) (simp_all add: NewCertificateManager_def)

text \<open>
  Claim C9 (leaf cache bound).  With the maximum of 100 set by the constructor, every
  issuance keeps the cache at no more than 100 entries with distinct domains.  An
  issuance for an uncached domain that finds 100 entries first evicts down to 49
  (below half the maximum) and then inserts the new certificate, which leaves 50
  entries: the new one and 49 of the old ones.
\<close>

theorem leaf_cache_bounded:
  assumes "cacheMaxSize cm = 100"
    and "distinct (map fst (certCache cm))"
    and "length (certCache cm) \<le> 100"
  shows "cacheMaxSize (snd (GenerateServerCertificate cm domain made)) = 100
     \<and> distinct (map fst (certCache (snd (GenerateServerCertificate cm domain made))))
     \<and> length (certCache (snd (GenerateServerCertificate cm domain made))) \<le> 100
     \<and> (map_of (certCache cm) domain = None \<and> made = Inr cert \<and> 100 \<le> length (certCache cm) \<longrightarrow>
          length (certCache (snd (GenerateServerCertificate cm domain made))) = 50
        \<and> map_of (certCache (snd (GenerateServerCertificate cm domain made))) domain = Some cert
        \<and> set (certCache (snd (GenerateServerCertificate cm domain made)))
             \<subseteq> insert (domain, cert) (set (certCache cm)))"
  using assms by (rule leaf_cache_step)

lemma exFullCache_distinct: "distinct (map fst exFullCache)"
proof -
  have "inj_on (\<lambda>i. replicate (Suc i) (CHR ''a'') @ ''.test'') (set [0..<100])"
    by (rule inj_onI) (auto dest: arg_cong[where f = length])
  then show ?thesis by (simp add: exFullCache_def comp_def distinct_map)
qed

lemma exFullCache_fresh: "map_of exFullCache ''new.test'' = None"
  by (auto simp: map_of_eq_None_iff exFullCache_def)

theorem leaf_cache_bounded_witness:
  "cacheMaxSize exManager = 100
   \<and> distinct (map fst (certCache exManager))
   \<and> length (certCache exManager) \<le> 100
   \<and> map_of (certCache exManager) ''new.test'' = None
   \<and> 100 \<le> length (certCache exManager)
   \<and> length (certCache (snd (GenerateServerCertificate exManager ''new.test''
                               (Inr (exLeaf ''new.test''))))) = 50
   \<and> map_of (certCache (snd (GenerateServerCertificate exManager ''new.test''
                               (Inr (exLeaf ''new.test''))))) ''new.test''
        = Some (exLeaf ''new.test'')"
proof -
  have n: "cacheMaxSize exManager = 100"
    by (simp add: exManager_def NewCertificateManager_def)
  have d: "distinct (map fst (certCache exManager))"
    using exFullCache_distinct by (simp add: exManager_def)
  have l: "length (certCache exManager) = 100"
    by (simp add: exManager_def exFullCache_def)
  have le: "length (certCache exManager) \<le> 100" using l by simp
  have f: "map_of (certCache exManager) ''new.test'' = None"
    using exFullCache_fresh by (simp add: exManager_def)
  show ?thesis
    using leaf_cache_bounded[OF n d le, of "''new.test''" "Inr (exLeaf ''new.test'')" "exLeaf ''new.test''"]
      n d l f by simp
qed

end
